theory Spec2Isabelle
  imports Main "HOL-Library.Char_ord" "HOL-Library.List_Lexorder"
begin

section \<open>Values, dictionaries and errors\<close>

text \<open>
  The tap state, the configuration and every record are Python dictionaries read from
  JSON. A JSON value is a \<open>json\<close>; a dictionary is an association list in insertion
  order, as a Python \<open>dict\<close> keeps it. Python's \<open>None\<close> is \<open>JNull\<close>. Floating point
  numbers are left out: no function below computes with one.
\<close>

datatype json =
    JNull
  | JBool bool
  | JInt int
  | JStr string
  | JArr "json list"
  | JObj "(string \<times> json) list"

type_synonym dict = "(string \<times> json) list"

text \<open>
  The exceptions the modelled code raises. \<open>ValueErrorNoStream n ks\<close> is the
  \<open>ValueError\<close> of \<open>Tap.sync_one\<close>, whose message interpolates the stream name \<open>n\<close>
  and the sorted list \<open>ks\<close> of registered names.
\<close>

datatype error =
    NotImplementedError string
  | ValueError string
  | ValueErrorNoStream string "string list"
  | KeyError string
  | IndexError
  | TypeError
  | AttributeError

datatype 'a result = Return 'a | Raise error

text \<open>\<open>d[k] = v\<close>: an existing key keeps its position, a new key goes last.\<close>

fun dict_set :: "('k \<times> 'v) list \<Rightarrow> 'k \<Rightarrow> 'v \<Rightarrow> ('k \<times> 'v) list" where
  "dict_set [] k v = [(k, v)]"
| "dict_set ((k', v') # kvs) k v =
     (if k' = k then (k, v) # kvs else (k', v') # dict_set kvs k v)"

text \<open>\<open>d.get(k)\<close>, which is \<open>None\<close> for a missing key.\<close>

definition dict_get :: "dict \<Rightarrow> string \<Rightarrow> json" where
  "dict_get d k = (case map_of d k of None \<Rightarrow> JNull | Some v \<Rightarrow> v)"

text \<open>\<open>d.update(e)\<close>: the items of \<open>e\<close> are stored into \<open>d\<close> one after another.\<close>

fun dict_update :: "('k \<times> 'v) list \<Rightarrow> ('k \<times> 'v) list \<Rightarrow> ('k \<times> 'v) list" where
  "dict_update d [] = d"
| "dict_update d ((k, v) # kvs) = dict_update (dict_set d k v) kvs"

text \<open>Python's truth value of an object, as \<open>if x:\<close> and \<open>not x\<close> test it.\<close>

fun truthy :: "json \<Rightarrow> bool" where
  "truthy JNull = False"
| "truthy (JBool b) = b"
| "truthy (JInt i) = (i \<noteq> 0)"
| "truthy (JStr s) = (s \<noteq> [])"
| "truthy (JArr xs) = (xs \<noteq> [])"
| "truthy (JObj kvs) = (kvs \<noteq> [])"

section \<open>Streams and the tap\<close>

text \<open>
  \<open>Stream\<close> (\<open>singer_sdk.streams.core\<close>) is a class the tap only reads attributes of.
  The record holds the attributes \<open>tap_base.py\<close> and the sample streams use;
  \<open>get_stream_version\<close> is the value the method of that name returns, and
  \<open>parent_stream_types\<close> lists the parents by stream name.
\<close>

record stream =
  name :: string
  tap_stream_id :: string
  replication_method :: string
  primary_keys :: "string list option"
  replication_key :: "string option"
  get_stream_version :: json
  parent_stream_types :: "string list"

text \<open>
  What the tap asks of its collaborators is recorded in a trace, so that a statement can
  say which calls were made and in which order.
\<close>

datatype event = LoadStreams | ApplyCatalog string | Sync string

text \<open>
  The fields of \<open>Tap.__init__\<close>: \<open>_input_catalog\<close>, \<open>_state\<close> and \<open>_streams\<close>, the
  plugin's \<open>name\<close>, and the trace.
\<close>

record tap =
  tap_name :: string
  tap_input_catalog :: "dict option"
  tap_state :: dict
  tap_streams :: "(string \<times> stream) list option"
  trace :: "event list"

section \<open>Bookmarks and state management\<close>

text \<open>
  \<open>singer.write_bookmark\<close> of the singer library: it makes sure that
  \<open>state['bookmarks'][tap_stream_id]\<close> exists, replacing a missing or \<open>None\<close> entry
  on the path by an empty dictionary, and stores \<open>val\<close> under \<open>key\<close> there. An entry
  on the path that is neither \<open>None\<close> nor a dictionary makes it raise, before any change
  to the state.
\<close>

definition ensure_path :: "dict \<Rightarrow> string \<Rightarrow> dict" where
  "ensure_path d k = (if dict_get d k = JNull then dict_set d k (JObj []) else d)"

definition write_bookmark :: "dict \<Rightarrow> string \<Rightarrow> string \<Rightarrow> json \<Rightarrow> dict result" where
  "write_bookmark st sid key val =
     (let st1 = ensure_path st ''bookmarks'' in
      case dict_get st1 ''bookmarks'' of
        JObj bm \<Rightarrow>
          (let bm1 = ensure_path bm sid in
           case dict_get bm1 sid of
             JObj sb \<Rightarrow>
               Return (dict_set st1 ''bookmarks''
                 (JObj (dict_set bm1 sid (JObj (dict_set sb key val)))))
           | _ \<Rightarrow> Raise TypeError)
      | _ \<Rightarrow> Raise AttributeError)"

text \<open>\<open>Tap.merge_bookmarks\<close>: one \<open>write_bookmark\<close> per item, in order.\<close>

fun merge_bookmarks :: "tap \<Rightarrow> stream \<Rightarrow> dict \<Rightarrow> unit result \<times> tap" where
  "merge_bookmarks t s [] = (Return (), t)"
| "merge_bookmarks t s ((k, v) # kvs) =
     (case write_bookmark (tap_state t) (tap_stream_id s) k v of
        Raise e \<Rightarrow> (Raise e, t)
      | Return st \<Rightarrow> merge_bookmarks (t\<lparr>tap_state := st\<rparr>) s kvs)"

text \<open>
  The dictionary comprehension of \<open>update_bookmarks\<close>: the items of the record whose
  key is one of \<open>stream.primary_keys or []\<close>.
\<close>

definition pk_values :: "stream \<Rightarrow> dict \<Rightarrow> dict" where
  "pk_values s r =
     dict_update []
       (filter (\<lambda>(k, v). k \<in> set (case primary_keys s of None \<Rightarrow> [] | Some ks \<Rightarrow> ks)) r)"

text \<open>
  \<open>Tap.update_bookmarks\<close>. \<open>latest_record\<close> is \<open>None\<close> or a dictionary. The lookup
  \<open>singer._get_bookmark("max_pk_values")\<close> belongs to the singer library and is given
  neither the state nor the stream: it is the parameter \<open>gb\<close>, which returns a value or
  raises.
\<close>

definition update_bookmarks ::
  "(string \<Rightarrow> json result) \<Rightarrow> tap \<Rightarrow> stream \<Rightarrow> dict option \<Rightarrow> unit result \<times> tap" where
  "update_bookmarks gb t s latest_record =
     (case (if tap_state t = []
            then merge_bookmarks t s [(''version'', get_stream_version s)]
            else (Return (), t)) of
        (Raise e, t1) \<Rightarrow> (Raise e, t1)
      | (Return u, t1) \<Rightarrow>
          (case latest_record of
             None \<Rightarrow> (Return (), t1)
           | Some r \<Rightarrow>
               if r = [] then (Return (), t1)
               else if replication_method s = ''FULL_TABLE'' then
                 (case gb ''max_pk_values'' of
                    Raise e \<Rightarrow> (Raise e, t1)
                  | Return max_pk_values \<Rightarrow>
                      if truthy max_pk_values
                      then merge_bookmarks t1 s [(''last_pk_fetched'', JObj (pk_values s r))]
                      else (Return (), t1))
               else if replication_method s \<in> {''INCREMENTAL'', ''LOG_BASED''} then
                 (case replication_key s of
                    None \<Rightarrow> (Return (), t1)
                  | Some rk \<Rightarrow>
                      (case map_of r rk of
                         None \<Rightarrow> (Raise (KeyError rk), t1)
                       | Some v \<Rightarrow>
                           merge_bookmarks t1 s
                             [(''replication_key'', JStr rk), (''replication_key_value'', v)]))
               else (Return (), t1)))"

text \<open>
  The bookmark stored for a stream under a key: \<open>state['bookmarks'][sid][key]\<close> when
  that path exists, \<open>None\<close> otherwise.
\<close>

definition stored_bookmark :: "dict \<Rightarrow> string \<Rightarrow> string \<Rightarrow> json option" where
  "stored_bookmark st sid key =
     (case map_of st ''bookmarks'' of
        Some (JObj bm) \<Rightarrow>
          (case map_of bm sid of Some (JObj sb) \<Rightarrow> map_of sb key | _ \<Rightarrow> None)
      | _ \<Rightarrow> None)"

text \<open>
  Calling \<open>update_bookmarks\<close> on each record of a sequence in order, as a stream's sync
  does for the records it fetches; an exception ends the sequence.
\<close>

fun update_all ::
  "(string \<Rightarrow> json result) \<Rightarrow> tap \<Rightarrow> stream \<Rightarrow> dict list \<Rightarrow> unit result \<times> tap" where
  "update_all gb t s [] = (Return (), t)"
| "update_all gb t s (r # rs) =
     (case update_bookmarks gb t s (Some r) of
        (Raise e, t1) \<Rightarrow> (Raise e, t1)
      | (Return u, t1) \<Rightarrow> update_all gb t1 s rs)"

text \<open>The state right after the initial version marker of a stream is written.\<close>

definition version_state :: "stream \<Rightarrow> dict" where
  "version_state s =
     [(''bookmarks'', JObj [(tap_stream_id s, JObj [(''version'', get_stream_version s)])])]"

text \<open>The tap after the first statement of \<open>update_bookmarks\<close>, the version check.\<close>

definition with_version :: "tap \<Rightarrow> stream \<Rightarrow> tap" where
  "with_version t s = (if tap_state t = [] then t\<lparr>tap_state := version_state s\<rparr> else t)"

text \<open>
  A state on which \<open>write_bookmark\<close> for the stream \<open>sid\<close> does not raise: the entries
  \<open>bookmarks\<close> and \<open>bookmarks[sid]\<close> are missing, \<open>None\<close> or dictionaries.
\<close>

definition writable :: "dict \<Rightarrow> string \<Rightarrow> bool" where
  "writable st sid =
     (case dict_get st ''bookmarks'' of
        JNull \<Rightarrow> True
      | JObj bm \<Rightarrow> (case dict_get bm sid of JNull \<Rightarrow> True | JObj sb \<Rightarrow> True | _ \<Rightarrow> False)
      | _ \<Rightarrow> False)"

section \<open>Stream detection\<close>

text \<open>\<open>Tap.discover_streams\<close> and \<open>Tap.load_streams\<close> of the base class.\<close>

definition discovery_message :: "string \<Rightarrow> string" where
  "discovery_message n =
     ''Tap '' @ CHR 0x27 # n @ CHR 0x27 # '' does not support discovery. ''
     @ ''Please set the '' @ CHR 0x27 # ''--catalog'' @ CHR 0x27
     # '' command line argument and try again.''"

definition discover_streams :: "tap \<Rightarrow> stream list result" where
  "discover_streams t = Raise (NotImplementedError (discovery_message (tap_name t)))"

definition load_streams :: "tap \<Rightarrow> stream list result" where
  "load_streams t = discover_streams t"

text \<open>
  The property \<open>Tap.streams\<close>. A tap may override \<open>load_streams\<close>, and
  \<open>Stream.apply_catalog\<close> is not part of the tap: both are parameters, \<open>la\<close> giving the
  list of streams or raising, \<open>ac\<close> giving the stream as the catalog leaves it or raising.
  The loop stores each stream under its name as soon as it is handled;
  \<open>given_catalog\<close> is the input catalog when \<open>if self.input_catalog:\<close> holds.
\<close>

definition given_catalog :: "tap \<Rightarrow> dict option" where
  "given_catalog t =
     (case tap_input_catalog t of
        None \<Rightarrow> None
      | Some c \<Rightarrow> if c = [] then None else Some c)"

fun load_loop ::
  "(dict \<Rightarrow> stream \<Rightarrow> stream result) \<Rightarrow> tap \<Rightarrow> (string \<times> stream) list \<Rightarrow> stream list
     \<Rightarrow> (string \<times> stream) list result \<times> tap" where
  "load_loop ac t m [] = (Return m, t)"
| "load_loop ac t m (s # ss) =
     (case given_catalog t of
        Some c \<Rightarrow>
          (case ac c s of
             Raise e \<Rightarrow> (Raise e, t\<lparr>trace := trace t @ [ApplyCatalog (name s)]\<rparr>)
           | Return s' \<Rightarrow>
               load_loop ac
                 (t\<lparr>tap_streams := Some (dict_set m (name s') s'),
                    trace := trace t @ [ApplyCatalog (name s)]\<rparr>)
                 (dict_set m (name s') s') ss)
      | None \<Rightarrow>
          load_loop ac (t\<lparr>tap_streams := Some (dict_set m (name s) s)\<rparr>)
            (dict_set m (name s) s) ss)"

definition streams ::
  "(tap \<Rightarrow> stream list result) \<Rightarrow> (dict \<Rightarrow> stream \<Rightarrow> stream result) \<Rightarrow> tap
     \<Rightarrow> (string \<times> stream) list result \<times> tap" where
  "streams la ac t =
     (case tap_streams t of
        Some m \<Rightarrow> (Return m, t)
      | None \<Rightarrow>
          (let t1 = t\<lparr>tap_streams := Some [], trace := trace t @ [LoadStreams]\<rparr> in
           case la t1 of
             Raise e \<Rightarrow> (Raise e, t1)
           | Return ss \<Rightarrow> load_loop ac t1 [] ss))"

section \<open>Sync methods\<close>

text \<open>
  \<open>Stream.sync\<close> is the parameter \<open>sy\<close>: run on a stream and the tap's state, it returns
  or raises, leaving a state. \<open>run_sync\<close> is the call \<open>stream.sync()\<close>; the trace records
  which stream was synced.
\<close>

definition run_sync ::
  "(stream \<Rightarrow> dict \<Rightarrow> unit result \<times> dict) \<Rightarrow> tap \<Rightarrow> stream \<Rightarrow> unit result \<times> tap" where
  "run_sync sy t s =
     (case sy s (tap_state t) of
        (r, st) \<Rightarrow> (r, t\<lparr>tap_state := st, trace := trace t @ [Sync (name s)]\<rparr>))"

text \<open>
  \<open>Tap.sync_one\<close>. Each mention of \<open>self.streams\<close> is an access to the property: one in
  the membership test, then one to build the message or to fetch the stream.
\<close>

definition sync_one ::
  "(stream \<Rightarrow> dict \<Rightarrow> unit result \<times> dict) \<Rightarrow> (tap \<Rightarrow> stream list result)
     \<Rightarrow> (dict \<Rightarrow> stream \<Rightarrow> stream result) \<Rightarrow> tap \<Rightarrow> string \<Rightarrow> unit result \<times> tap" where
  "sync_one sy la ac t stream_name =
     (case streams la ac t of
        (Raise e, t1) \<Rightarrow> (Raise e, t1)
      | (Return m, t1) \<Rightarrow>
          if stream_name \<notin> set (map fst m) then
            (case streams la ac t1 of
               (Raise e, t2) \<Rightarrow> (Raise e, t2)
             | (Return m2, t2) \<Rightarrow>
                 (Raise (ValueErrorNoStream stream_name (sort (map fst m2))), t2))
          else
            (case streams la ac t1 of
               (Raise e, t2) \<Rightarrow> (Raise e, t2)
             | (Return m2, t2) \<Rightarrow>
                 (case map_of m2 stream_name of
                    None \<Rightarrow> (Raise (KeyError stream_name), t2)
                  | Some s \<Rightarrow> run_sync sy t2 s)))"

text \<open>\<open>Tap.sync_all\<close>: the loop over \<open>self.streams.values()\<close>.\<close>

fun sync_loop ::
  "(stream \<Rightarrow> dict \<Rightarrow> unit result \<times> dict) \<Rightarrow> tap \<Rightarrow> stream list \<Rightarrow> unit result \<times> tap" where
  "sync_loop sy t [] = (Return (), t)"
| "sync_loop sy t (s # ss) =
     (case run_sync sy t s of
        (Raise e, t1) \<Rightarrow> (Raise e, t1)
      | (Return u, t1) \<Rightarrow> sync_loop sy t1 ss)"

definition sync_all ::
  "(stream \<Rightarrow> dict \<Rightarrow> unit result \<times> dict) \<Rightarrow> (tap \<Rightarrow> stream list result)
     \<Rightarrow> (dict \<Rightarrow> stream \<Rightarrow> stream result) \<Rightarrow> tap \<Rightarrow> unit result \<times> tap" where
  "sync_all sy la ac t =
     (case streams la ac t of
        (Raise e, t1) \<Rightarrow> (Raise e, t1)
      | (Return m, t1) \<Rightarrow> sync_loop sy t1 (map snd m))"

text \<open>The names of the streams synced so far, in the order their syncs were run.\<close>

fun synced :: "event list \<Rightarrow> string list" where
  "synced [] = []"
| "synced (Sync n # es) = n # synced es"
| "synced (e # es) = synced es"

text \<open>How often \<open>load_streams\<close> was called.\<close>

definition loads :: "event list \<Rightarrow> nat" where
  "loads es = length (filter (\<lambda>e. e = LoadStreams) es)"

text \<open>
  An order of syncs respects the dependencies when every stream in it comes after each of
  its parents: \<open>parents_first seen ss\<close> runs through \<open>ss\<close> with the names already
  synced.
\<close>

fun parents_first :: "string list \<Rightarrow> stream list \<Rightarrow> bool" where
  "parents_first seen [] = True"
| "parents_first seen (s # ss) =
     (list_all (\<lambda>p. p \<in> set seen) (parent_stream_types s)
      \<and> parents_first (seen @ [name s]) ss)"

section \<open>The sample GitLab streams\<close>

text \<open>
  Python's \<open>str.split\<close> on a separator of one character, and the decimal digits of an
  integer as \<open>str\<close> prints them.
\<close>

fun split_on :: "char \<Rightarrow> string \<Rightarrow> string list" where
  "split_on c [] = [[]]"
| "split_on c (x # xs) =
     (if x = c then [] # split_on c xs
      else (case split_on c xs of
              [] \<Rightarrow> [[x]]
            | w # ws \<Rightarrow> (x # w) # ws))"

fun digits :: "nat \<Rightarrow> string" where
  "digits n =
     (if n < 10 then [char_of (48 + n)]
      else digits (n div 10) @ [char_of (48 + n mod 10)])"

text \<open>
  What an f-string prints for a value. For a list or a dictionary that is Python's
  \<open>repr\<close>, the parameter \<open>rp\<close>.
\<close>

fun format_value :: "(json \<Rightarrow> string) \<Rightarrow> json \<Rightarrow> string" where
  "format_value rp JNull = ''None''"
| "format_value rp (JBool b) = (if b then ''True'' else ''False'')"
| "format_value rp (JInt i) = (if i < 0 then CHR ''-'' # digits (nat (- i)) else digits (nat i))"
| "format_value rp (JStr s) = s"
| "format_value rp v = rp v"

text \<open>
  \<open>GitlabStream.get_params\<close>, on the plugin's configuration: an index out of range,
  as \<open>split("=")[1]\<close> is when there is no \<open>=\<close>, raises.
\<close>

definition get_params :: "dict \<Rightarrow> string \<Rightarrow> dict result" where
  "get_params config substream_id =
     (case split_on (CHR '','') substream_id of
        [] \<Rightarrow> Raise IndexError
      | first # others \<Rightarrow>
          (case split_on (CHR ''='') first of
             a # project_id # rest \<Rightarrow>
               Return [(''project_id'', JStr project_id),
                       (''start_date'', dict_get config ''start_date'')]
           | _ \<Rightarrow> Raise IndexError))"

text \<open>
  \<open>ProjectBasedStream.get_substream_ids\<close>: the comprehension runs over the elements of a
  list, the characters of a string or the keys of a dictionary, and raises on any other
  value of \<open>project_ids\<close>, \<open>None\<close> for a missing one included.
\<close>

definition get_substream_ids :: "(json \<Rightarrow> string) \<Rightarrow> dict \<Rightarrow> string list result" where
  "get_substream_ids rp config =
     (case dict_get config ''project_ids'' of
        JArr ids \<Rightarrow> Return (map (\<lambda>i. ''project_id='' @ format_value rp i) ids)
      | JStr s \<Rightarrow> Return (map (\<lambda>c. ''project_id='' @ [c]) s)
      | JObj kvs \<Rightarrow> Return (map (\<lambda>(k, v). ''project_id='' @ k) kvs)
      | _ \<Rightarrow> Raise TypeError)"


section \<open>Sample inputs\<close>

text \<open>
  A tap as \<open>Tap.__init__\<close> leaves it without state and catalog, the same tap holding
  a bookmark of the stream \<open>projects\<close>, and streams declared as the sample tap declares
  them: one replicated as a full table, one incrementally on \<open>updated_at\<close>.
\<close>

definition fresh_tap :: tap where
  "fresh_tap =
     \<lparr>tap_name = ''sample-tap-gitlab'', tap_input_catalog = None, tap_state = [],
      tap_streams = None, trace = []\<rparr>"

definition resumed_tap :: tap where
  "resumed_tap =
     fresh_tap\<lparr>tap_state := [(''bookmarks'', JObj [(''projects'', JObj [(''version'', JInt 1)])])]\<rparr>"

definition issues_stream :: stream where
  "issues_stream =
     \<lparr>name = ''issues'', tap_stream_id = ''issues'', replication_method = ''FULL_TABLE'',
      primary_keys = Some [''id''], replication_key = None, get_stream_version = JInt 7,
      parent_stream_types = []\<rparr>"

definition commits_stream :: stream where
  "commits_stream =
     \<lparr>name = ''commits'', tap_stream_id = ''commits'', replication_method = ''INCREMENTAL'',
      primary_keys = Some [''id''], replication_key = Some ''updated_at'',
      get_stream_version = JInt 7, parent_stream_types = []\<rparr>"

text \<open>
  Two behaviours of the lookup \<open>singer._get_bookmark\<close>: the attribute does not exist,
  or the lookup finds nothing.
\<close>

definition gb_missing :: "string \<Rightarrow> json result" where
  "gb_missing key = Raise AttributeError"

definition gb_none :: "string \<Rightarrow> json result" where
  "gb_none key = Return JNull"



text \<open>
  The streams \<open>epics\<close> and \<open>epic_issues\<close> of the sample tap, the second declaring the
  first as its parent; a \<open>load_streams\<close> that returns the child before the parent; a
  catalog that leaves a stream as it is. Then three behaviours of \<open>Stream.sync\<close>: one
  returns without touching the state, one appends the stream's name to the list \<open>log\<close>
  of the state and returns, one notes the stream's name under \<open>failed\<close> and raises.
\<close>

definition epics_stream :: stream where
  "epics_stream =
     \<lparr>name = ''epics'', tap_stream_id = ''epics'', replication_method = ''FULL_TABLE'',
      primary_keys = Some [''id''], replication_key = None, get_stream_version = JInt 7,
      parent_stream_types = []\<rparr>"

definition epic_issues_stream :: stream where
  "epic_issues_stream =
     \<lparr>name = ''epic_issues'', tap_stream_id = ''epic_issues'',
      replication_method = ''FULL_TABLE'', primary_keys = Some [''id''],
      replication_key = None, get_stream_version = JInt 7,
      parent_stream_types = [''epics'']\<rparr>"

definition la_child_first :: "tap \<Rightarrow> stream list result" where
  "la_child_first t = Return [epic_issues_stream, epics_stream]"

definition ac_keep :: "dict \<Rightarrow> stream \<Rightarrow> stream result" where
  "ac_keep c s = Return s"

definition sy_ok :: "stream \<Rightarrow> dict \<Rightarrow> unit result \<times> dict" where
  "sy_ok s st = (Return (), st)"

definition sy_log :: "stream \<Rightarrow> dict \<Rightarrow> unit result \<times> dict" where
  "sy_log s st =
     (Return (),
      dict_set st ''log''
        (JArr ((case dict_get st ''log'' of JArr xs \<Rightarrow> xs | _ \<Rightarrow> []) @ [JStr (name s)])))"

definition sy_fail :: "stream \<Rightarrow> dict \<Rightarrow> unit result \<times> dict" where
  "sy_fail s st = (Raise (ValueError (name s)), dict_set st ''failed'' (JStr (name s)))"

section \<open>Dictionaries and single bookmark writes\<close>

lemma map_of_dict_set: "map_of (dict_set d k v) k' = (if k' = k then Some v else map_of d k')"
  by (induction d) auto

lemma dict_get_dict_set: "dict_get (dict_set d k v) k' = (if k' = k then v else dict_get d k')"
  by (simp add: dict_get_def map_of_dict_set)

lemma dict_get_Nil: "dict_get [] k = JNull"
  by (simp add: dict_get_def)

lemma dict_set_not_empty: "dict_set d k v \<noteq> []"
  by (cases d) (auto split: if_splits)

lemma dict_get_ensure_path:
  "dict_get (ensure_path d k) k' =
     (if k' = k \<and> dict_get d k = JNull then JObj [] else dict_get d k')"
  by (simp add: ensure_path_def dict_get_dict_set)

lemma stored_bookmark_get:
  "stored_bookmark st sid key =
     (case dict_get st ''bookmarks'' of
        JObj bm \<Rightarrow> (case dict_get bm sid of JObj sb \<Rightarrow> map_of sb key | _ \<Rightarrow> None)
      | _ \<Rightarrow> None)"
  by (simp add: stored_bookmark_def dict_get_def split: option.splits json.splits)

lemma write_bookmark_ReturnE:
  assumes "write_bookmark st sid key val = Return st'"
  obtains bm sb where
    "dict_get (ensure_path st ''bookmarks'') ''bookmarks'' = JObj bm"
    "dict_get (ensure_path bm sid) sid = JObj sb"
    "st' = dict_set (ensure_path st ''bookmarks'') ''bookmarks''
             (JObj (dict_set (ensure_path bm sid) sid (JObj (dict_set sb key val))))"
  using assms unfolding write_bookmark_def Let_def
  by (simp split: json.splits)


lemma write_bookmark_empty:
  "write_bookmark [] sid key val = Return [(''bookmarks'', JObj [(sid, JObj [(key, val)])])]"
  by (simp add: write_bookmark_def ensure_path_def dict_get_def)

lemma writable_get:
  "writable st sid \<longleftrightarrow>
     (\<exists>bm sb. dict_get (ensure_path st ''bookmarks'') ''bookmarks'' = JObj bm
        \<and> dict_get (ensure_path bm sid) sid = JObj sb)"
proof (cases "dict_get st ''bookmarks''")
  case (JObj bm)
  then show ?thesis
    by (cases "dict_get bm sid") (simp_all add: writable_def dict_get_ensure_path)
qed (simp_all add: writable_def dict_get_ensure_path dict_get_Nil)

lemma write_bookmark_writable:
  assumes "writable st sid"
  shows "\<exists>st'. write_bookmark st sid key val = Return st'"
proof -
  from assms obtain bm sb where
    "dict_get (ensure_path st ''bookmarks'') ''bookmarks'' = JObj bm"
    "dict_get (ensure_path bm sid) sid = JObj sb"
    unfolding writable_get by blast
  then show ?thesis by (simp add: write_bookmark_def)
qed

lemma write_bookmark_stored:
  assumes "write_bookmark st sid key val = Return st'"
  shows "stored_bookmark st' sid' key' =
     (if sid' = sid \<and> key' = key then Some val else stored_bookmark st sid' key')"
proof -
  from assms obtain bm sb where
    bm: "dict_get (ensure_path st ''bookmarks'') ''bookmarks'' = JObj bm" and
    sb: "dict_get (ensure_path bm sid) sid = JObj sb" and
    st': "st' = dict_set (ensure_path st ''bookmarks'') ''bookmarks''
             (JObj (dict_set (ensure_path bm sid) sid (JObj (dict_set sb key val))))"
    by (rule write_bookmark_ReturnE)
  have old: "stored_bookmark st x key' =
      (case dict_get bm x of JObj sb' \<Rightarrow> map_of sb' key' | _ \<Rightarrow> None)" for x
    using bm by (auto simp: stored_bookmark_get dict_get_ensure_path dict_get_Nil split: if_splits)
  have same: "stored_bookmark st sid key' = map_of sb key'"
    using sb by (auto simp: old dict_get_ensure_path split: if_splits)
  have new: "stored_bookmark st' sid' key' =
      (if sid' = sid then map_of (dict_set sb key val) key'
       else (case dict_get bm sid' of JObj sb' \<Rightarrow> map_of sb' key' | _ \<Rightarrow> None))"
    unfolding st'
    by (simp add: stored_bookmark_get dict_get_dict_set dict_get_ensure_path)
  show ?thesis
  proof (cases "sid' = sid")
    case True
    then show ?thesis using new same by (simp add: map_of_dict_set)
  next
    case False
    then show ?thesis using new old by simp
  qed
qed

lemma write_bookmark_keeps_writable:
  assumes "write_bookmark st sid key val = Return st'"
  shows "writable st' sid"
proof -
  from assms obtain bm sb where
    st': "st' = dict_set (ensure_path st ''bookmarks'') ''bookmarks''
             (JObj (dict_set (ensure_path bm sid) sid (JObj (dict_set sb key val))))"
    by (rule write_bookmark_ReturnE)
  show ?thesis unfolding st' by (simp add: writable_def dict_get_dict_set)
qed

lemma write_bookmark_not_empty:
  assumes "write_bookmark st sid key val = Return st'"
  shows "st' \<noteq> []"
  using assms by (elim write_bookmark_ReturnE) (simp add: dict_set_not_empty)

section \<open>Merging bookmarks and the steps of update_bookmarks\<close>

lemma merge_bookmarks_stored_frame:
  assumes "merge_bookmarks t s kvs = (r, t')"
    and "sid \<noteq> tap_stream_id s \<or> key \<notin> set (map fst kvs)"
  shows "stored_bookmark (tap_state t') sid key = stored_bookmark (tap_state t) sid key"
  using assms
proof (induction kvs arbitrary: t)
  case Nil
  then show ?case by simp
next
  case (Cons kv kvs)
  obtain k v where kv: "kv = (k, v)" by (cases kv)
  show ?case
  proof (cases "write_bookmark (tap_state t) (tap_stream_id s) k v")
    case (Raise e)
    with Cons.prems kv show ?thesis by simp
  next
    case (Return st)
    with Cons.prems kv have "merge_bookmarks (t\<lparr>tap_state := st\<rparr>) s kvs = (r, t')" by simp
    then have "stored_bookmark (tap_state t') sid key = stored_bookmark st sid key"
      using Cons.IH[of "t\<lparr>tap_state := st\<rparr>"] Cons.prems(2) by auto
    also have "\<dots> = stored_bookmark (tap_state t) sid key"
      using write_bookmark_stored[OF Return] Cons.prems(2) kv by auto
    finally show ?thesis .
  qed
qed

lemma merge_bookmarks_fields:
  "merge_bookmarks t s kvs = (r, t') \<Longrightarrow> t' = t\<lparr>tap_state := tap_state t'\<rparr>"
proof (induction kvs arbitrary: t)
  case Nil
  then show ?case by simp
next
  case (Cons kv kvs)
  obtain k v where kv: "kv = (k, v)" by (cases kv)
  show ?case
  proof (cases "write_bookmark (tap_state t) (tap_stream_id s) k v")
    case (Raise e)
    with Cons.prems kv show ?thesis by simp
  next
    case (Return st)
    with Cons.prems kv have "merge_bookmarks (t\<lparr>tap_state := st\<rparr>) s kvs = (r, t')" by simp
    from Cons.IH[OF this] show ?thesis by (cases t, cases t') simp
  qed
qed

lemma merge_bookmarks_one:
  assumes "writable (tap_state t) (tap_stream_id s)"
  shows "\<exists>st. merge_bookmarks t s [(k, v)] = (Return (), t\<lparr>tap_state := st\<rparr>)
     \<and> st \<noteq> [] \<and> writable st (tap_stream_id s)
     \<and> (\<forall>sid key. stored_bookmark st sid key =
           (if sid = tap_stream_id s \<and> key = k then Some v
            else stored_bookmark (tap_state t) sid key))"
proof -
  from write_bookmark_writable[OF assms] obtain st where
    w: "write_bookmark (tap_state t) (tap_stream_id s) k v = Return st" by blast
  show ?thesis
    using w write_bookmark_stored[OF w] write_bookmark_not_empty[OF w]
      write_bookmark_keeps_writable[OF w]
    by (intro exI[of _ st]) simp
qed

lemma merge_bookmarks_two:
  assumes "writable (tap_state t) (tap_stream_id s)" and "k1 \<noteq> k2"
  shows "\<exists>st. merge_bookmarks t s [(k1, v1), (k2, v2)] = (Return (), t\<lparr>tap_state := st\<rparr>)
     \<and> st \<noteq> [] \<and> writable st (tap_stream_id s)
     \<and> (\<forall>sid key. stored_bookmark st sid key =
           (if sid = tap_stream_id s \<and> key = k2 then Some v2
            else if sid = tap_stream_id s \<and> key = k1 then Some v1
            else stored_bookmark (tap_state t) sid key))"
proof -
  from write_bookmark_writable[OF assms(1)] obtain st1 where
    w1: "write_bookmark (tap_state t) (tap_stream_id s) k1 v1 = Return st1" by blast
  from write_bookmark_writable[OF write_bookmark_keeps_writable[OF w1]] obtain st2 where
    w2: "write_bookmark st1 (tap_stream_id s) k2 v2 = Return st2" by blast
  show ?thesis
    using w1 w2 write_bookmark_stored[OF w1] write_bookmark_stored[OF w2]
      write_bookmark_not_empty[OF w2] write_bookmark_keeps_writable[OF w2]
    by (intro exI[of _ st2]) simp
qed

lemma version_state_props:
  "version_state s \<noteq> []" "writable (version_state s) sid"
  "stored_bookmark (version_state s) sid key =
     (if sid = tap_stream_id s \<and> key = ''version'' then Some (get_stream_version s) else None)"
  by (simp_all add: version_state_def writable_def dict_get_def stored_bookmark_def)

lemma with_version_props:
  "tap_state (with_version t s) \<noteq> []"
  "with_version (with_version t s) s = with_version t s"
  "tap_state t \<noteq> [] \<Longrightarrow> with_version t s = t"
  "tap_state t = [] \<Longrightarrow> with_version t s = t\<lparr>tap_state := version_state s\<rparr>"
  by (simp_all add: with_version_def version_state_props)

lemma with_version_writable:
  "writable (tap_state t) sid \<Longrightarrow> writable (tap_state (with_version t s)) sid"
  by (simp add: with_version_def version_state_props)

lemma update_bookmarks_step:
  "update_bookmarks gb t s latest_record =
     (case latest_record of
        None \<Rightarrow> (Return (), with_version t s)
      | Some r \<Rightarrow>
          if r = [] then (Return (), with_version t s)
          else if replication_method s = ''FULL_TABLE'' then
            (case gb ''max_pk_values'' of
               Raise e \<Rightarrow> (Raise e, with_version t s)
             | Return max_pk_values \<Rightarrow>
                 if truthy max_pk_values
                 then merge_bookmarks (with_version t s) s
                        [(''last_pk_fetched'', JObj (pk_values s r))]
                 else (Return (), with_version t s))
          else if replication_method s \<in> {''INCREMENTAL'', ''LOG_BASED''} then
            (case replication_key s of
               None \<Rightarrow> (Return (), with_version t s)
             | Some rk \<Rightarrow>
                 (case map_of r rk of
                    None \<Rightarrow> (Raise (KeyError rk), with_version t s)
                  | Some v \<Rightarrow>
                      merge_bookmarks (with_version t s) s
                        [(''replication_key'', JStr rk), (''replication_key_value'', v)]))
          else (Return (), with_version t s))"
proof (cases "tap_state t = []")
  case True
  then have "merge_bookmarks t s [(''version'', get_stream_version s)]
      = (Return (), with_version t s)"
    by (simp add: with_version_def write_bookmark_empty version_state_def)
  with True show ?thesis by (simp add: update_bookmarks_def)
next
  case False
  then have wv: "with_version t s = t" by (simp add: with_version_def)
  show ?thesis unfolding wv update_bookmarks_def using False by simp
qed

lemma update_bookmarks_version_frame:
  "stored_bookmark (tap_state (snd (update_bookmarks gb t s lr))) sid ''version''
     = stored_bookmark (tap_state (with_version t s)) sid ''version''"
proof -
  have m: "stored_bookmark (tap_state (snd (merge_bookmarks (with_version t s) s kvs))) sid ''version''
      = stored_bookmark (tap_state (with_version t s)) sid ''version''"
    if "''version'' \<notin> set (map fst kvs)" for kvs
    using merge_bookmarks_stored_frame[of "with_version t s" s kvs _ _ sid "''version''"] that
    by (cases "merge_bookmarks (with_version t s) s kvs") simp
  show ?thesis
    unfolding update_bookmarks_step
    by (simp add: m del: merge_bookmarks.simps split: option.splits result.splits)
qed

section \<open>Empty records\<close>

lemma stored_bookmark_Nil: "stored_bookmark [] sid key = None"
  by (simp add: stored_bookmark_def)

lemma update_bookmarks_falsy:
  assumes "latest_record = None \<or> latest_record = Some []"
  shows "update_bookmarks gb t s latest_record = (Return (), with_version t s)"
  using assms by (auto simp: update_bookmarks_step)

text \<open>
  Claim C10. Called with no record (\<open>None\<close>) or an empty one, \<open>update_bookmarks\<close>
  returns and leaves every stored bookmark as it was. A state that is not empty is not
  touched at all; on the empty state the one write is the version marker of the stream.
  No \<open>last_pk_fetched\<close> and no \<open>replication_key_value\<close> is added or changed, for any
  stream.
\<close>

theorem update_bookmarks_empty_record_frame:
  assumes "latest_record = None \<or> latest_record = Some []"
    and "update_bookmarks gb t s latest_record = (r, t')"
  shows "r = Return ()
    \<and> (tap_state t \<noteq> [] \<longrightarrow> t' = t)
    \<and> (tap_state t = [] \<longrightarrow> t' = t\<lparr>tap_state := version_state s\<rparr>)
    \<and> (\<forall>sid key v. stored_bookmark (tap_state t) sid key = Some v
          \<longrightarrow> stored_bookmark (tap_state t') sid key = Some v)
    \<and> (\<forall>sid. stored_bookmark (tap_state t') sid ''last_pk_fetched''
          = stored_bookmark (tap_state t) sid ''last_pk_fetched'')
    \<and> (\<forall>sid. stored_bookmark (tap_state t') sid ''replication_key_value''
          = stored_bookmark (tap_state t) sid ''replication_key_value'')"
proof -
  have r: "r = Return ()" and t': "t' = with_version t s"
    using assms(2) unfolding update_bookmarks_falsy[OF assms(1)] by simp_all
  show ?thesis
  proof (cases "tap_state t = []")
    case True
    then show ?thesis
      using r t' by (simp add: with_version_props version_state_props stored_bookmark_Nil)
  next
    case False
    then show ?thesis using r t' by (simp add: with_version_props)
  qed
qed

theorem update_bookmarks_empty_record_frame_witness:
  "update_bookmarks gb_none resumed_tap issues_stream (Some []) = (Return (), resumed_tap)
   \<and> update_bookmarks gb_none fresh_tap issues_stream None
       = (Return (), fresh_tap\<lparr>tap_state := version_state issues_stream\<rparr>)
   \<and> stored_bookmark (version_state issues_stream) ''issues'' ''last_pk_fetched'' = None"
proof -
  obtain r1 t1 where u1: "update_bookmarks gb_none resumed_tap issues_stream (Some []) = (r1, t1)"
    by (cases "update_bookmarks gb_none resumed_tap issues_stream (Some [])")
  obtain r2 t2 where u2: "update_bookmarks gb_none fresh_tap issues_stream None = (r2, t2)"
    by (cases "update_bookmarks gb_none fresh_tap issues_stream None")
  have h1: "Some [] = None \<or> Some [] = Some ([] :: dict)" by simp
  have h2: "None = None \<or> None = Some ([] :: dict)" by simp
  have s1: "tap_state resumed_tap \<noteq> []" by (simp add: resumed_tap_def fresh_tap_def)
  have s2: "tap_state fresh_tap = []" by (simp add: fresh_tap_def)
  from update_bookmarks_empty_record_frame[OF h1 u1] s1
  have a: "r1 = Return ()" "t1 = resumed_tap"
    by simp_all
  from update_bookmarks_empty_record_frame[OF h2 u2] s2
  have b: "r2 = Return ()" "t2 = fresh_tap\<lparr>tap_state := version_state issues_stream\<rparr>"
    by simp_all
  from update_bookmarks_empty_record_frame[OF h2 u2]
  have "\<forall>sid. stored_bookmark (tap_state t2) sid ''last_pk_fetched''
          = stored_bookmark (tap_state fresh_tap) sid ''last_pk_fetched''"
    by blast
  then have "stored_bookmark (tap_state t2) ''issues'' ''last_pk_fetched''
          = stored_bookmark (tap_state fresh_tap) ''issues'' ''last_pk_fetched''"
    by blast
  then have c: "stored_bookmark (version_state issues_stream) ''issues'' ''last_pk_fetched'' = None"
    unfolding b s2 by (simp add: stored_bookmark_Nil)
  show ?thesis using u1 u2 a b c by simp
qed

section \<open>The version marker\<close>

text \<open>
  The tap already holds a bookmark of \<open>projects\<close> and none of \<open>commits\<close>. The first
  bookmark write for \<open>commits\<close> stores its replication key value and no version
  marker.
\<close>

theorem version_marker_counterexample:
  "fst (update_bookmarks gb_none resumed_tap commits_stream (Some [(''updated_at'', JInt 5)]))
     = Return ()
   \<and> stored_bookmark (tap_state resumed_tap) ''commits'' ''replication_key_value'' = None
   \<and> stored_bookmark (tap_state resumed_tap) ''commits'' ''version'' = None
   \<and> stored_bookmark
        (tap_state (snd (update_bookmarks gb_none resumed_tap commits_stream
           (Some [(''updated_at'', JInt 5)])))) ''commits'' ''replication_key_value''
       = Some (JInt 5)
   \<and> stored_bookmark
        (tap_state (snd (update_bookmarks gb_none resumed_tap commits_stream
           (Some [(''updated_at'', JInt 5)])))) ''commits'' ''version''
       = None"
  by (simp add: update_bookmarks_def resumed_tap_def fresh_tap_def commits_stream_def
      write_bookmark_def ensure_path_def dict_get_def stored_bookmark_def)

text \<open>
  Claim C3, as the code has it. The version check of \<open>update_bookmarks\<close> looks at the
  whole state, not at the stream's bookmark. On the empty state the version marker of the
  stream is written first, and the record is processed on the state that holds it: the
  call equals the call on that state, and the marker is there afterwards. On any other
  state no version marker is written: the \<open>version\<close> entry of every stream stays as it
  was, bookmarks of other streams or none.
\<close>

theorem version_marker_when_state_empty:
  "(tap_state t = [] \<longrightarrow>
      update_bookmarks gb t s latest_record
        = update_bookmarks gb (t\<lparr>tap_state := version_state s\<rparr>) s latest_record
      \<and> stored_bookmark (tap_state (snd (update_bookmarks gb t s latest_record)))
           (tap_stream_id s) ''version'' = Some (get_stream_version s))
   \<and> (tap_state t \<noteq> [] \<longrightarrow>
      (\<forall>sid. stored_bookmark (tap_state (snd (update_bookmarks gb t s latest_record)))
           sid ''version'' = stored_bookmark (tap_state t) sid ''version''))"
proof (cases "tap_state t = []")
  case True
  then have wv: "with_version t s = t\<lparr>tap_state := version_state s\<rparr>"
    by (simp add: with_version_props)
  have wv2: "with_version (t\<lparr>tap_state := version_state s\<rparr>) s = t\<lparr>tap_state := version_state s\<rparr>"
    using with_version_props(2)[of t s] unfolding wv .
  have "update_bookmarks gb t s latest_record
      = update_bookmarks gb (t\<lparr>tap_state := version_state s\<rparr>) s latest_record"
    by (simp only: update_bookmarks_step wv wv2)
  moreover have "stored_bookmark (tap_state (snd (update_bookmarks gb t s latest_record)))
           (tap_stream_id s) ''version'' = Some (get_stream_version s)"
    unfolding update_bookmarks_version_frame wv by (simp add: version_state_props)
  ultimately show ?thesis using True by simp
next
  case False
  then show ?thesis
    using update_bookmarks_version_frame[of gb t s latest_record]
    by (simp add: with_version_props)
qed

theorem version_marker_when_state_empty_witness:
  "tap_state fresh_tap = []
   \<and> stored_bookmark (tap_state (snd (update_bookmarks gb_none fresh_tap commits_stream
         (Some [(''updated_at'', JInt 5)])))) ''commits'' ''version'' = Some (JInt 7)
   \<and> tap_state resumed_tap \<noteq> []
   \<and> stored_bookmark (tap_state (snd (update_bookmarks gb_none resumed_tap commits_stream
         (Some [(''updated_at'', JInt 5)])))) ''commits'' ''version'' = None"
proof -
  have s1: "tap_state fresh_tap = []" by (simp add: fresh_tap_def)
  have s2: "tap_state resumed_tap \<noteq> []" by (simp add: resumed_tap_def fresh_tap_def)
  have old: "stored_bookmark (tap_state resumed_tap) ''commits'' ''version'' = None"
    by (simp add: resumed_tap_def fresh_tap_def stored_bookmark_def)
  have id: "tap_stream_id commits_stream = ''commits''" "get_stream_version commits_stream = JInt 7"
    by (simp_all add: commits_stream_def)
  have a: "stored_bookmark (tap_state (snd (update_bookmarks gb_none fresh_tap commits_stream
         (Some [(''updated_at'', JInt 5)])))) ''commits'' ''version'' = Some (JInt 7)"
    using version_marker_when_state_empty[of fresh_tap gb_none commits_stream
        "Some [(''updated_at'', JInt 5)]", THEN conjunct1, rule_format, OF s1, THEN conjunct2]
    unfolding id .
  have b: "stored_bookmark (tap_state (snd (update_bookmarks gb_none resumed_tap commits_stream
         (Some [(''updated_at'', JInt 5)])))) ''commits'' ''version'' = None"
    using version_marker_when_state_empty[of resumed_tap gb_none commits_stream
        "Some [(''updated_at'', JInt 5)]", THEN conjunct2, rule_format, OF s2, of "''commits''"]
    unfolding old .
  show ?thesis using s1 s2 a b by simp
qed

section \<open>Replication key values\<close>

lemma update_bookmarks_incremental:
  assumes m: "replication_method s = ''INCREMENTAL'' \<or> replication_method s = ''LOG_BASED''"
    and rk: "replication_key s = Some rk"
    and v: "map_of r rk = Some v"
    and w: "writable (tap_state t) (tap_stream_id s)"
  shows "\<exists>t'. update_bookmarks gb t s (Some r) = (Return (), t')
     \<and> writable (tap_state t') (tap_stream_id s)
     \<and> stored_bookmark (tap_state t') (tap_stream_id s) ''replication_key_value'' = Some v
     \<and> stored_bookmark (tap_state t') (tap_stream_id s) ''replication_key'' = Some (JStr rk)"
proof -
  have r: "r \<noteq> []" using v by auto
  have nf: "replication_method s \<noteq> ''FULL_TABLE''" using m by auto
  have u: "update_bookmarks gb t s (Some r) =
      merge_bookmarks (with_version t s) s
        [(''replication_key'', JStr rk), (''replication_key_value'', v)]"
    unfolding update_bookmarks_step using r nf m rk v by auto
  have ne: "''replication_key'' \<noteq> ''replication_key_value''" by simp
  from merge_bookmarks_two[OF with_version_writable[OF w, of s] ne, of "JStr rk" v]
  obtain st where
    "merge_bookmarks (with_version t s) s
        [(''replication_key'', JStr rk), (''replication_key_value'', v)]
       = (Return (), with_version t s\<lparr>tap_state := st\<rparr>)"
    "writable st (tap_stream_id s)"
    "\<forall>sid key. stored_bookmark st sid key =
           (if sid = tap_stream_id s \<and> key = ''replication_key_value'' then Some v
            else if sid = tap_stream_id s \<and> key = ''replication_key'' then Some (JStr rk)
            else stored_bookmark (tap_state (with_version t s)) sid key)"
    by blast
  then show ?thesis unfolding u by (intro exI[of _ "with_version t s\<lparr>tap_state := st\<rparr>"]) simp
qed

text \<open>
  Claim C4. For a stream replicated as \<open>INCREMENTAL\<close> or \<open>LOG_BASED\<close> that has a
  replication key, \<open>update_bookmarks\<close> stores the record's value of that key as
  \<open>replication_key_value\<close>, whatever was stored before: nothing is compared. So after
  any sequence of records that hold the key, in any order of their values and so also in
  non-decreasing order, the stored value is that of the last record. The state is one on
  which \<open>write_bookmark\<close> does not raise.
\<close>

theorem replication_key_value_is_last_record:
  assumes "replication_method s = ''INCREMENTAL'' \<or> replication_method s = ''LOG_BASED''"
    and "replication_key s = Some rk"
    and "writable (tap_state t) (tap_stream_id s)"
    and "rs \<noteq> []"
    and "\<forall>r \<in> set rs. map_of r rk \<noteq> None"
  shows "\<exists>t'. update_all gb t s rs = (Return (), t')
     \<and> stored_bookmark (tap_state t') (tap_stream_id s) ''replication_key_value''
         = map_of (last rs) rk"
  using assms(3-5)
proof (induction rs arbitrary: t)
  case Nil
  then show ?case by simp
next
  case (Cons r rs)
  from Cons.prems(3) obtain v where v: "map_of r rk = Some v" by auto
  from update_bookmarks_incremental[OF assms(1,2) v Cons.prems(1), of gb]
  obtain t1 where t1: "update_bookmarks gb t s (Some r) = (Return (), t1)"
    "writable (tap_state t1) (tap_stream_id s)"
    "stored_bookmark (tap_state t1) (tap_stream_id s) ''replication_key_value'' = Some v"
    by blast
  show ?case
  proof (cases "rs = []")
    case True
    then show ?thesis using t1 v by simp
  next
    case False
    from Cons.IH[OF t1(2) False] Cons.prems(3)
    obtain t' where "update_all gb t1 s rs = (Return (), t')"
      "stored_bookmark (tap_state t') (tap_stream_id s) ''replication_key_value''
         = map_of (last rs) rk"
      by auto
    then show ?thesis using t1(1) False by simp
  qed
qed

theorem replication_key_value_is_last_record_witness:
  "update_all gb_none fresh_tap commits_stream
      [[(''id'', JInt 1), (''updated_at'', JInt 5)], [(''id'', JInt 2), (''updated_at'', JInt 3)]]
     = (Return (), fresh_tap\<lparr>tap_state :=
          [(''bookmarks'', JObj [(''commits'', JObj [(''version'', JInt 7),
             (''replication_key'', JStr ''updated_at''),
             (''replication_key_value'', JInt 3)])])]\<rparr>)
   \<and> stored_bookmark
        [(''bookmarks'', JObj [(''commits'', JObj [(''version'', JInt 7),
             (''replication_key'', JStr ''updated_at''),
             (''replication_key_value'', JInt 3)])])] ''commits'' ''replication_key_value''
       = Some (JInt 3)"
proof -
  let ?rs = "[[(''id'', JInt 1), (''updated_at'', JInt 5)],
              [(''id'', JInt 2), (''updated_at'', JInt 3)]]"
  have h1: "replication_method commits_stream = ''INCREMENTAL''
      \<or> replication_method commits_stream = ''LOG_BASED''"
    by (simp add: commits_stream_def)
  have h2: "replication_key commits_stream = Some ''updated_at''"
    by (simp add: commits_stream_def)
  have h3: "writable (tap_state fresh_tap) (tap_stream_id commits_stream)"
    by (simp add: fresh_tap_def writable_def dict_get_def)
  have h4: "?rs \<noteq> []" by simp
  have h5: "\<forall>r \<in> set ?rs. map_of r ''updated_at'' \<noteq> None" by simp
  have run: "update_all gb_none fresh_tap commits_stream ?rs
     = (Return (), fresh_tap\<lparr>tap_state :=
          [(''bookmarks'', JObj [(''commits'', JObj [(''version'', JInt 7),
             (''replication_key'', JStr ''updated_at''),
             (''replication_key_value'', JInt 3)])])]\<rparr>)"
    by (simp add: update_bookmarks_def fresh_tap_def commits_stream_def
        write_bookmark_def ensure_path_def dict_get_def)
  from replication_key_value_is_last_record[OF h1 h2 h3 h4 h5, of gb_none]
  show ?thesis unfolding run by (simp add: commits_stream_def)
qed

section \<open>Full-table bookmarks\<close>

lemma update_bookmarks_full_table_gate:
  assumes "replication_method s = ''FULL_TABLE''" and "r \<noteq> []"
  shows "update_bookmarks gb t s (Some r) =
     (case gb ''max_pk_values'' of
        Raise e \<Rightarrow> (Raise e, with_version t s)
      | Return m \<Rightarrow>
          if truthy m
          then merge_bookmarks (with_version t s) s [(''last_pk_fetched'', JObj (pk_values s r))]
          else (Return (), with_version t s))"
  unfolding update_bookmarks_step using assms by simp

lemma update_bookmarks_full_table_no_write:
  assumes "replication_method s = ''FULL_TABLE''"
    and "\<forall>m. gb ''max_pk_values'' = Return m \<longrightarrow> \<not> truthy m"
  shows "tap_state (snd (update_bookmarks gb t s lr)) = tap_state (with_version t s)"
  unfolding update_bookmarks_step using assms
  by (auto split: option.splits result.splits)

lemma update_bookmarks_full_table_write:
  assumes "replication_method s = ''FULL_TABLE''" and "r \<noteq> []"
    and "gb ''max_pk_values'' = Return m" and "truthy m"
    and "writable (tap_state t) (tap_stream_id s)"
  shows "\<exists>t'. update_bookmarks gb t s (Some r) = (Return (), t')
     \<and> stored_bookmark (tap_state t') (tap_stream_id s) ''last_pk_fetched''
         = Some (JObj (pk_values s r))"
proof -
  from merge_bookmarks_one[OF with_version_writable[OF assms(5), of s],
      of "''last_pk_fetched''" "JObj (pk_values s r)"]
  obtain st where
    "merge_bookmarks (with_version t s) s [(''last_pk_fetched'', JObj (pk_values s r))]
       = (Return (), with_version t s\<lparr>tap_state := st\<rparr>)"
    "\<forall>sid key. stored_bookmark st sid key =
           (if sid = tap_stream_id s \<and> key = ''last_pk_fetched''
            then Some (JObj (pk_values s r))
            else stored_bookmark (tap_state (with_version t s)) sid key)"
    by blast
  then show ?thesis
    unfolding update_bookmarks_full_table_gate[OF assms(1,2)] using assms(3,4)
    by (intro exI[of _ "with_version t s\<lparr>tap_state := st\<rparr>"]) simp
qed

text \<open>
  Claim C1, on the code. The stream is replicated as \<open>FULL_TABLE\<close> with the primary key
  \<open>id\<close>. Whether the lookup of \<open>max_pk_values\<close> raises or finds nothing, no
  \<open>last_pk_fetched\<close> is stored, after one record or after two; the primary key values of
  the last record would be \<open>{"id": 2}\<close>.
\<close>

theorem last_pk_fetched_not_written:
  "update_bookmarks gb_missing fresh_tap issues_stream (Some [(''id'', JInt 1)])
     = (Raise AttributeError, fresh_tap\<lparr>tap_state := version_state issues_stream\<rparr>)
   \<and> update_bookmarks gb_none fresh_tap issues_stream (Some [(''id'', JInt 1)])
     = (Return (), fresh_tap\<lparr>tap_state := version_state issues_stream\<rparr>)
   \<and> update_all gb_none fresh_tap issues_stream [[(''id'', JInt 1)], [(''id'', JInt 2)]]
     = (Return (), fresh_tap\<lparr>tap_state := version_state issues_stream\<rparr>)
   \<and> stored_bookmark (version_state issues_stream) ''issues'' ''last_pk_fetched'' = None
   \<and> pk_values issues_stream [(''id'', JInt 2)] = [(''id'', JInt 2)]"
  by (simp add: update_bookmarks_step with_version_def fresh_tap_def issues_stream_def
      gb_missing_def gb_none_def version_state_def stored_bookmark_def pk_values_def)


section \<open>Discovery\<close>

text \<open>
  Claim C8. \<open>discover_streams\<close> of a tap that defines no discovery raises, for every tap:
  the error is a \<open>NotImplementedError\<close> whose message names the tap and tells the
  operator to set the \<open>--catalog\<close> command line argument. It never returns streams, and
  the \<open>load_streams\<close> of the base class is this very call.
\<close>

theorem discover_streams_raises:
  "discover_streams t =
     Raise (NotImplementedError
       (''Tap '' @ [CHR 0x27] @ tap_name t @ [CHR 0x27] @ '' does not support discovery. ''
        @ ''Please set the '' @ [CHR 0x27] @ ''--catalog'' @ [CHR 0x27]
        @ '' command line argument and try again.''))
   \<and> (\<forall>ss. discover_streams t \<noteq> Return ss)
   \<and> load_streams t = discover_streams t"
  by (simp add: discover_streams_def discovery_message_def load_streams_def)

section \<open>Parameters of the GitLab streams\<close>

lemma split_eq: "split_on (CHR ''='') ''project_id=ns/proj'' = [''project_id'', ''ns/proj'']"
  by simp

lemma split_comma: "split_on (CHR '','') ''project_id=ns/proj'' = [''project_id=ns/proj'']"
  by simp

text \<open>
  With only \<open>project_ids\<close> configured, the result of \<open>get_params\<close> does have an entry
  \<open>start_date\<close>: its value is \<open>None\<close>. The configuration has no such entry.
\<close>

theorem start_date_entry_present:
  "get_params [(''project_ids'', JArr [JStr ''ns/proj''])] ''project_id=ns/proj''
     = Return [(''project_id'', JStr ''ns/proj''), (''start_date'', JNull)]
   \<and> (case get_params [(''project_ids'', JArr [JStr ''ns/proj''])] ''project_id=ns/proj'' of
        Return r \<Rightarrow> map_of r ''start_date''
      | Raise e \<Rightarrow> None) = Some JNull
   \<and> map_of [(''project_ids'', JArr [JStr ''ns/proj''])] ''start_date'' = None"
  by (simp add: get_params_def dict_get_def split_eq split_comma)

text \<open>
  Claim C7, as the code has it. With \<open>project_ids\<close> configured as \<open>["ns/proj"]\<close>, with
  or without a \<open>start_date\<close>, the substream ids are exactly \<open>["project_id=ns/proj"]\<close>,
  and \<open>get_params("project_id=ns/proj")\<close> returns the dictionary of exactly two
  entries, in this order: \<open>project_id\<close> with the value \<open>ns/proj\<close>, and \<open>start_date\<close>
  with the configured value, or with \<open>None\<close> when none is configured. The entry
  \<open>start_date\<close> is there in both cases.
\<close>

theorem gitlab_project_params:
  "get_substream_ids rp [(''project_ids'', JArr [JStr ''ns/proj''])]
     = Return [''project_id=ns/proj'']
   \<and> get_substream_ids rp [(''project_ids'', JArr [JStr ''ns/proj'']), (''start_date'', d)]
     = Return [''project_id=ns/proj'']
   \<and> get_params [(''project_ids'', JArr [JStr ''ns/proj''])] ''project_id=ns/proj''
     = Return [(''project_id'', JStr ''ns/proj''), (''start_date'', JNull)]
   \<and> get_params [(''project_ids'', JArr [JStr ''ns/proj'']), (''start_date'', d)]
        ''project_id=ns/proj''
     = Return [(''project_id'', JStr ''ns/proj''), (''start_date'', d)]
   \<and> get_params config ''project_id=ns/proj''
     = Return [(''project_id'', JStr ''ns/proj''),
               (''start_date'', (case map_of config ''start_date'' of
                                   None \<Rightarrow> JNull | Some v \<Rightarrow> v))]"
  by (simp add: get_substream_ids_def get_params_def dict_get_def split_eq split_comma)





section \<open>The cached streams and the sync loop\<close>

lemma synced_append: "synced (es @ fs) = synced es @ synced fs"
  by (induction es rule: synced.induct) simp_all

lemma loads_append: "loads (es @ fs) = loads es + loads fs"
  by (simp add: loads_def)

lemma given_catalog_update [simp]:
  "given_catalog (t\<lparr>tap_streams := x\<rparr>) = given_catalog t"
  "given_catalog (t\<lparr>trace := y\<rparr>) = given_catalog t"
  by (simp_all add: given_catalog_def)

lemma load_loop_props:
  assumes "load_loop ac t m ss = (r, t')" and "tap_streams t = Some m"
  shows "(\<exists>m'. tap_streams t' = Some m' \<and> (\<forall>x. r = Return x \<longrightarrow> x = m'))
    \<and> tap_state t' = tap_state t
    \<and> synced (trace t') = synced (trace t)
    \<and> loads (trace t') = loads (trace t)"
  using assms
proof (induction ss arbitrary: t m)
  case Nil
  then show ?case by auto
next
  case (Cons s ss)
  show ?case
  proof (cases "given_catalog t")
    case None
    with Cons.prems(1) have
      "load_loop ac (t\<lparr>tap_streams := Some (dict_set m (name s) s)\<rparr>)
         (dict_set m (name s) s) ss = (r, t')"
      by simp
    from Cons.IH[OF this] show ?thesis by simp
  next
    case (Some c)
    show ?thesis
    proof (cases "ac c s")
      case (Raise e)
      with Some Cons.prems show ?thesis
        by (auto simp: synced_append loads_append loads_def)
    next
      case (Return s')
      with Some Cons.prems(1) have
        "load_loop ac
           (t\<lparr>tap_streams := Some (dict_set m (name s') s'),
              trace := trace t @ [ApplyCatalog (name s)]\<rparr>)
           (dict_set m (name s') s') ss = (r, t')"
        by simp
      from Cons.IH[OF this] show ?thesis
        by (simp add: synced_append loads_append loads_def)
    qed
  qed
qed

lemma streams_cached: "tap_streams t = Some m \<Longrightarrow> streams la ac t = (Return m, t)"
  by (simp add: streams_def)

lemma streams_props:
  assumes "streams la ac t = (r, t')"
  shows "(\<exists>m'. tap_streams t' = Some m' \<and> (\<forall>x. r = Return x \<longrightarrow> x = m'))
    \<and> tap_state t' = tap_state t
    \<and> synced (trace t') = synced (trace t)
    \<and> loads (trace t') \<le> loads (trace t) + 1
    \<and> (tap_streams t \<noteq> None \<longrightarrow> t' = t)"
proof (cases "tap_streams t")
  case (Some m)
  with assms show ?thesis by (auto simp: streams_def)
next
  case None
  let ?t1 = "t\<lparr>tap_streams := Some [], trace := trace t @ [LoadStreams]\<rparr>"
  show ?thesis
  proof (cases "la ?t1")
    case (Raise e)
    with None assms show ?thesis
      by (auto simp: streams_def Let_def synced_append loads_append loads_def)
  next
    case (Return ss)
    with None assms have "load_loop ac ?t1 [] ss = (r, t')"
      by (simp add: streams_def Let_def)
    from load_loop_props[OF this] None show ?thesis
      by (simp add: synced_append loads_append loads_def)
  qed
qed

lemma streams_again:
  assumes "streams la ac t = (r, t')"
  shows "\<exists>m'. streams la ac t' = (Return m', t') \<and> (\<forall>x. r = Return x \<longrightarrow> x = m')"
  using streams_props[OF assms] streams_cached[of t' _ la ac] by blast

lemma streams_Return_again:
  "streams la ac t = (Return m, t') \<Longrightarrow> streams la ac t' = (Return m, t')"
  using streams_again[of la ac t "Return m" t'] by auto

lemma run_sync_props:
  "run_sync sy t s = (r, t') \<Longrightarrow>
     synced (trace t') = synced (trace t) @ [name s] \<and> tap_streams t' = tap_streams t
     \<and> loads (trace t') = loads (trace t)"
  by (auto simp: run_sync_def synced_append loads_append loads_def split: prod.splits)

lemma load_loop_keys:
  assumes "load_loop ac t m ss = (Return m', t')" and "\<forall>(k, s) \<in> set m. name s = k"
  shows "\<forall>(k, s) \<in> set m'. name s = k"
  using assms
proof (induction ss arbitrary: t m)
  case Nil
  then show ?case by simp
next
  case (Cons s ss)
  have keep: "\<forall>(k, s) \<in> set (dict_set m (name x) x). name s = k" for x
    using Cons.prems(2) by (induction m) (auto split: if_splits)
  show ?case
  proof (cases "given_catalog t")
    case None
    with Cons.prems(1) have
      "load_loop ac (t\<lparr>tap_streams := Some (dict_set m (name s) s)\<rparr>)
         (dict_set m (name s) s) ss = (Return m', t')"
      by simp
    from Cons.IH[OF this keep] show ?thesis .
  next
    case (Some c)
    show ?thesis
    proof (cases "ac c s")
      case (Raise e)
      with Some Cons.prems(1) show ?thesis by simp
    next
      case (Return s')
      with Some Cons.prems(1) have
        "load_loop ac
           (t\<lparr>tap_streams := Some (dict_set m (name s') s'),
              trace := trace t @ [ApplyCatalog (name s)]\<rparr>)
           (dict_set m (name s') s') ss = (Return m', t')"
        by simp
      from Cons.IH[OF this keep] show ?thesis .
    qed
  qed
qed

lemma streams_keys:
  assumes "streams la ac t = (Return m, t1)" and "tap_streams t = None"
    and "map_of m k = Some s"
  shows "name s = k"
proof -
  let ?t1 = "t\<lparr>tap_streams := Some [], trace := trace t @ [LoadStreams]\<rparr>"
  from assms(1,2) obtain ss where "load_loop ac ?t1 [] ss = (Return m, t1)"
    by (auto simp: streams_def Let_def split: result.splits)
  from load_loop_keys[OF this] have "\<forall>(k, s) \<in> set m. name s = k" by simp
  with map_of_SomeD[OF assms(3)] show ?thesis by auto
qed

lemma streams_child_first:
  "streams la_child_first ac_keep fresh_tap
     = (Return [(''epic_issues'', epic_issues_stream), (''epics'', epics_stream)],
        fresh_tap\<lparr>tap_streams :=
             Some [(''epic_issues'', epic_issues_stream), (''epics'', epics_stream)],
           trace := [LoadStreams]\<rparr>)"
  by (simp add: streams_def la_child_first_def fresh_tap_def given_catalog_def
      epic_issues_stream_def epics_stream_def)

section \<open>Repeated access to the streams\<close>

text \<open>
  Claim C9, on the code. The tap is the base class, whose \<open>load_streams\<close> raises. The
  first access to \<open>streams\<close> raises, after \<open>_streams\<close> was set to the empty dictionary;
  the second access returns that empty dictionary and loads nothing, and a \<open>sync_all\<close>
  on this tap returns having synced no stream.
\<close>

theorem streams_cache_after_failed_load:
  "streams load_streams ac_keep fresh_tap
     = (Raise (NotImplementedError (discovery_message ''sample-tap-gitlab'')),
        fresh_tap\<lparr>tap_streams := Some [], trace := [LoadStreams]\<rparr>)
   \<and> streams load_streams ac_keep (fresh_tap\<lparr>tap_streams := Some [], trace := [LoadStreams]\<rparr>)
     = (Return [], fresh_tap\<lparr>tap_streams := Some [], trace := [LoadStreams]\<rparr>)
   \<and> sync_all sy_ok load_streams ac_keep
        (fresh_tap\<lparr>tap_streams := Some [], trace := [LoadStreams]\<rparr>)
     = (Return (), fresh_tap\<lparr>tap_streams := Some [], trace := [LoadStreams]\<rparr>)"
  by (simp add: streams_def sync_all_def load_streams_def discover_streams_def fresh_tap_def)

section \<open>Syncing one stream\<close>

text \<open>
  Claim C6. Let the access to \<open>streams\<close> return the mapping \<open>m\<close>. For a name that is
  not a key of \<open>m\<close>, \<open>sync_one\<close> raises the \<open>ValueError\<close> that names the stream and
  the sorted keys (the spec's StreamNotFoundError) and leaves the tap as the access to
  \<open>streams\<close> left it: no sync is called, the state is as before. For a name that is a
  key, \<open>sync_one\<close> is one call of the sync of the stream stored under it, on the state
  of the tap: it returns or raises as that sync does, the state is the one that sync
  leaves, and no other sync is called. On a tap that had not loaded its streams, the stream
  stored under a name has that name.
\<close>

theorem sync_one_runs_named_stream:
  assumes "streams la ac t = (Return m, t1)"
  shows "(stream_name \<notin> set (map fst m) \<longrightarrow>
            sync_one sy la ac t stream_name
              = (Raise (ValueErrorNoStream stream_name (sort (map fst m))), t1)
            \<and> synced (trace t1) = synced (trace t)
            \<and> tap_state t1 = tap_state t)
    \<and> (\<forall>s. map_of m stream_name = Some s \<longrightarrow>
            sync_one sy la ac t stream_name
              = (fst (sy s (tap_state t)),
                 t1\<lparr>tap_state := snd (sy s (tap_state t)),
                    trace := trace t1 @ [Sync (name s)]\<rparr>)
            \<and> synced (trace (snd (sync_one sy la ac t stream_name)))
                = synced (trace t) @ [name s]
            \<and> (tap_streams t = None \<longrightarrow> name s = stream_name))"
proof -
  note again = streams_Return_again[OF assms]
  note p = streams_props[OF assms]
  have st: "tap_state t1 = tap_state t" using p by simp
  have a: "sync_one sy la ac t stream_name
              = (Raise (ValueErrorNoStream stream_name (sort (map fst m))), t1)"
    if "stream_name \<notin> set (map fst m)"
    using that assms again by (simp add: sync_one_def)
  have b: "sync_one sy la ac t stream_name
              = (fst (sy s (tap_state t)),
                 t1\<lparr>tap_state := snd (sy s (tap_state t)),
                    trace := trace t1 @ [Sync (name s)]\<rparr>)
            \<and> synced (trace (snd (sync_one sy la ac t stream_name)))
                = synced (trace t) @ [name s]
            \<and> (tap_streams t = None \<longrightarrow> name s = stream_name)"
    if s: "map_of m stream_name = Some s" for s
  proof -
    from s have "stream_name \<in> set (map fst m)"
      by (metis map_of_eq_None_iff option.distinct(1) set_map)
    then have 1: "sync_one sy la ac t stream_name = run_sync sy t1 s"
      using s assms again by (simp add: sync_one_def)
    have 2: "run_sync sy t1 s
        = (fst (sy s (tap_state t)),
           t1\<lparr>tap_state := snd (sy s (tap_state t)), trace := trace t1 @ [Sync (name s)]\<rparr>)"
      unfolding run_sync_def st by (simp add: case_prod_unfold)
    have 3: "synced (trace (snd (sync_one sy la ac t stream_name)))
        = synced (trace t) @ [name s]"
      unfolding 1 2 using p by (simp add: synced_append)
    from 1 2 3 streams_keys[OF assms _ s] show ?thesis by simp
  qed
  from a b p show ?thesis by blast
qed

theorem sync_one_runs_named_stream_witness:
  "sync_one sy_log la_child_first ac_keep fresh_tap ''issues''
     = (Raise (ValueErrorNoStream ''issues'' (sort [''epic_issues'', ''epics''])),
        fresh_tap\<lparr>tap_streams :=
             Some [(''epic_issues'', epic_issues_stream), (''epics'', epics_stream)],
           trace := [LoadStreams]\<rparr>)
   \<and> sync_one sy_log la_child_first ac_keep fresh_tap ''epics''
     = (Return (),
        fresh_tap\<lparr>tap_state := [(''log'', JArr [JStr ''epics''])],
           tap_streams :=
             Some [(''epic_issues'', epic_issues_stream), (''epics'', epics_stream)],
           trace := [LoadStreams, Sync ''epics'']\<rparr>)
   \<and> sync_one sy_fail la_child_first ac_keep fresh_tap ''epics''
     = (Raise (ValueError ''epics''),
        fresh_tap\<lparr>tap_state := [(''failed'', JStr ''epics'')],
           tap_streams :=
             Some [(''epic_issues'', epic_issues_stream), (''epics'', epics_stream)],
           trace := [LoadStreams, Sync ''epics'']\<rparr>)"
proof -
  let ?t1 = "fresh_tap\<lparr>tap_streams :=
             Some [(''epic_issues'', epic_issues_stream), (''epics'', epics_stream)],
           trace := [LoadStreams]\<rparr>"
  note th = sync_one_runs_named_stream[OF streams_child_first]
  have absent: "''issues'' \<notin> set (map fst
      [(''epic_issues'', epic_issues_stream), (''epics'', epics_stream)])"
    by simp
  have present: "map_of [(''epic_issues'', epic_issues_stream), (''epics'', epics_stream)]
      ''epics'' = Some epics_stream"
    by simp
  have a: "sync_one sy_log la_child_first ac_keep fresh_tap ''issues''
     = (Raise (ValueErrorNoStream ''issues'' (sort [''epic_issues'', ''epics''])), ?t1)"
    using th[of "''issues''" sy_log, THEN conjunct1, rule_format, OF absent] by simp
  have b: "sync_one sy_log la_child_first ac_keep fresh_tap ''epics''
     = (fst (sy_log epics_stream (tap_state fresh_tap)),
        ?t1\<lparr>tap_state := snd (sy_log epics_stream (tap_state fresh_tap)),
           trace := trace ?t1 @ [Sync (name epics_stream)]\<rparr>)"
    using th[of "''epics''" sy_log, THEN conjunct2, rule_format, OF present] by simp
  have c: "sync_one sy_fail la_child_first ac_keep fresh_tap ''epics''
     = (fst (sy_fail epics_stream (tap_state fresh_tap)),
        ?t1\<lparr>tap_state := snd (sy_fail epics_stream (tap_state fresh_tap)),
           trace := trace ?t1 @ [Sync (name epics_stream)]\<rparr>)"
    using th[of "''epics''" sy_fail, THEN conjunct2, rule_format, OF present] by simp
  from a b c show ?thesis
    by (simp add: fresh_tap_def epics_stream_def sy_log_def sy_fail_def dict_get_def)
qed

section \<open>Syncing all streams\<close>

text \<open>
  Claim C2, on the code. \<open>epic_issues\<close> declares \<open>epics\<close> as its parent, and
  \<open>load_streams\<close> returns \<open>epic_issues\<close> before \<open>epics\<close>. Each sync appends the name
  of its stream to the \<open>log\<close> of the state. \<open>sync_all\<close> returns, and the log shows
  that the sync of \<open>epic_issues\<close> ran before the sync of its parent: the order is the
  one of the mapping, which is not an order that has every stream after its parents.
\<close>

theorem sync_all_child_before_parent:
  "sync_all sy_log la_child_first ac_keep fresh_tap
     = (Return (),
        fresh_tap\<lparr>tap_state := [(''log'', JArr [JStr ''epic_issues'', JStr ''epics''])],
           tap_streams :=
             Some [(''epic_issues'', epic_issues_stream), (''epics'', epics_stream)],
           trace := [LoadStreams, Sync ''epic_issues'', Sync ''epics'']\<rparr>)
   \<and> parent_stream_types epic_issues_stream = [''epics'']
   \<and> \<not> parents_first [] [epic_issues_stream, epics_stream]"
proof -
  have "sync_all sy_log la_child_first ac_keep fresh_tap
      = sync_loop sy_log
          (fresh_tap\<lparr>tap_streams :=
               Some [(''epic_issues'', epic_issues_stream), (''epics'', epics_stream)],
             trace := [LoadStreams]\<rparr>)
          [epic_issues_stream, epics_stream]"
    by (simp add: sync_all_def streams_child_first)
  then show ?thesis
    by (simp add: run_sync_def sy_log_def dict_get_def fresh_tap_def
        epic_issues_stream_def epics_stream_def)
qed

end
